theory Spec2Isabelle
  imports Complex_Main
begin

section \<open>Values, errors and the random source\<close>

text \<open>
  Coordinates are modelled as real numbers: the program's floating-point numbers are
  idealised, except that a quotient by zero and an \<open>arccos\<close> outside \<open>[-1, 1]\<close> have no
  real value (numpy returns \<open>nan\<close> or an infinity there), which is the value \<open>None\<close>.
  A Python exception is a value of type \<open>error\<close>; every assertion of the source keeps
  its message.
\<close>

datatype error =
    AssertionError string
  | UnboundLocalError string
  | IndexError
  | ValueError

type_synonym point = "real list"
type_synonym matrix = "real list list"

text \<open>The process-wide random generator: the sequence of the values it will return.\<close>

type_synonym rng = "nat \<Rightarrow> real"

definition np_divide :: "real \<Rightarrow> real \<Rightarrow> real option" where
  "np_divide a b = (if b = 0 then None else Some (a / b))"

definition np_arccos :: "real option \<Rightarrow> real option" where
  "np_arccos v =
     (case v of None \<Rightarrow> None
      | Some c \<Rightarrow> if - 1 \<le> c \<and> c \<le> 1 then Some (arccos c) else None)"

section \<open>Metrics (\<open>src/algorithms/metrics.py\<close>)\<close>

definition euclidean :: "point \<Rightarrow> point \<Rightarrow> error + real" where
  "euclidean x y =
     (if length x \<noteq> length y
      then Inl (AssertionError ''ERROR - vectors in Euclidean metric have different lengths'')
      else Inr (sum_list (map2 (\<lambda>a b. (a - b) * (a - b)) x y)))"

text \<open>
  \<open>angular_to_cartesian\<close>: the loop over \<open>i\<close> multiplies \<open>x[i]\<close> by \<open>cos a[i]\<close> and
  every later component by \<open>sin a[i]\<close>.
\<close>

definition a2c_step :: "real list \<Rightarrow> real list \<Rightarrow> nat \<Rightarrow> real list" where
  "a2c_step a x i =
     (let x1 = x[i := x ! i * cos (a ! i)]
      in take (Suc i) x1 @ map (\<lambda>v. v * sin (a ! i)) (drop (Suc i) x1))"

definition angular_to_cartesian :: "real list \<Rightarrow> real list" where
  "angular_to_cartesian a =
     foldl (a2c_step a) (replicate (length a + 1) 1) [0..<length a]"

definition dot :: "real list \<Rightarrow> real list \<Rightarrow> real" where
  "dot x y = sum_list (map2 (\<lambda>a b. a * b) x y)"

definition spherical :: "real list \<Rightarrow> real list \<Rightarrow> error + real option" where
  "spherical xa ya =
     (if length xa \<noteq> length ya
      then Inl (AssertionError ''ERROR - vectors in spherical metric have different lengths'')
      else let x = angular_to_cartesian xa; y = angular_to_cartesian ya;
               cos_psi = dot x y
           in Inr (np_arccos (Some cos_psi)))"

text \<open>
  \<open>cartesian_to_angular\<close>: \<open>np.zeros(D-1)\<close> refuses a negative size, and the reflection
  of the last angle reads \<open>x[-1]\<close>, which an empty array does not have.
\<close>

definition sq_norm_from :: "nat \<Rightarrow> real list \<Rightarrow> real" where
  "sq_norm_from i a = sum_list (map (\<lambda>v. v ^ 2) (drop i a))"

definition cartesian_to_angular :: "real list \<Rightarrow> error + real option list" where
  "cartesian_to_angular a =
     (let D = length a in
      if D = 0 then Inl ValueError
      else let x = map (\<lambda>i. np_arccos (np_divide (a ! i) (sqrt (sq_norm_from i a))))
                     [0..<D - 1]
           in if last a < 0
              then (if x = [] then Inl IndexError
                    else Inr (x[length x - 1 := map_option (\<lambda>v. 2 * pi - v) (last x)]))
              else Inr x)"

definition minkowski :: "point \<Rightarrow> point \<Rightarrow> error + real" where
  "minkowski x y =
     (if length x \<noteq> length y
      then Inl (AssertionError ''ERROR - vectors in Minkowski metric have different lengths'')
      else if x = [] then Inl IndexError
      else let dt = x ! 0 - y ! 0;
               dt2 = dt * dt;
               dx = map (\<lambda>i. x ! i - y ! i) [1..<length x];
               dx2 = map (\<lambda>v. v * v) dx;
               dx2sum = sum_list dx2
           in Inr (dx2sum - dt2))"

text \<open>
  \<open>minkowski_periodic\<close>. The list \<open>L\<close> is a mutable object of the caller, so the model
  returns its final content beside the result. The \<open>while\<close> loop appends \<open>None\<close> until
  \<open>len(L) \<ge> D - 1\<close>. In the \<open>for\<close> loop the statement \<open>dz2 += dx2\<close> reads the local
  variable \<open>dz2\<close>, which no statement ever assigns: Python raises \<open>UnboundLocalError\<close>
  in the first iteration.
\<close>

function fill_None :: "real option list \<Rightarrow> int \<Rightarrow> real option list" where
  "fill_None L n = (if int (length L) < n then fill_None (L @ [None]) n else L)"
  by pat_completeness auto
termination
  by (relation "measure (\<lambda>(L, n). nat (n - int (length L)))") auto

declare fill_None.simps [simp del]

definition truthy :: "real option \<Rightarrow> bool" where
  "truthy L_d = (case L_d of None \<Rightarrow> False | Some v \<Rightarrow> v \<noteq> 0)"

fun periodic_loop ::
  "point \<Rightarrow> point \<Rightarrow> real option list \<Rightarrow> nat list \<Rightarrow> real \<Rightarrow> error + real" where
  "periodic_loop x y L [] ds2 = Inr ds2"
| "periodic_loop x y L (d # ds) ds2 =
     (let L_d = L ! (d - 1);
          dx2 = (if truthy L_d
                 then min ((x ! d - y ! d) ^ 2)
                        (min ((x ! d - y ! d + the L_d) ^ 2) ((x ! d - y ! d - the L_d) ^ 2))
                 else (x ! d - y ! d) ^ 2)
      in Inl (UnboundLocalError ''dz2''))"

definition minkowski_periodic ::
  "point \<Rightarrow> point \<Rightarrow> real option list \<Rightarrow> (error + real) \<times> real option list" where
  "minkowski_periodic x y L =
     (let D = length x in
      if length y \<noteq> D
      then (Inl (AssertionError ''ERROR - vectors in Minkowski metric have different lengths''), L)
      else let L1 = fill_None L (int D - 1) in
           if x = [] then (Inl IndexError, L1)
           else let dt = x ! 0 - y ! 0;
                    dt2 = dt * dt;
                    ds2 = - 1 * dt2
                in (periodic_loop x y L1 [1..<D] ds2, L1))"

text \<open>
  The default value \<open>L=[]\<close> is one list object, created when the function is defined
  and shared by every call that passes no \<open>L\<close>.
\<close>

record globals =
  default_L :: "real option list"

definition minkowski_periodic_default ::
  "point \<Rightarrow> point \<Rightarrow> globals \<Rightarrow> (error + real) \<times> globals" where
  "minkowski_periodic_default x y st =
     (case minkowski_periodic x y (default_L st) of
        (r, L1) \<Rightarrow> (r, st\<lparr>default_L := L1\<rparr>))"

definition de_sitter :: "point \<Rightarrow> point \<Rightarrow> error + real option" where
  "de_sitter x y =
     (if x = [] \<or> y = [] then Inl IndexError
      else let dt = x ! 0 - y ! 0;
               dt2 = dt * dt
           in case spherical (tl x) (tl y) of
                Inl e \<Rightarrow> Inl e
              | Inr dx \<Rightarrow> Inr (map_option (\<lambda>d. d * d - dt2) dx))"

section \<open>Causal set graphs (\<open>src/dagology/generators/causal_set.py\<close>)\<close>

text \<open>
  The directed graph of the graph library, as far as the program uses it: the nodes with
  their \<open>position\<close> attribute (\<open>None\<close> for a node that only an edge created) and the
  edges, both in insertion order and without duplicates.
\<close>

record digraph =
  nodes :: "(nat \<times> point option) list"
  edges :: "(nat \<times> nat) list"

definition DiGraph :: digraph where
  "DiGraph = \<lparr>nodes = [], edges = []\<rparr>"

definition has_node :: "digraph \<Rightarrow> nat \<Rightarrow> bool" where
  "has_node G n = (n \<in> fst ` set (nodes G))"

definition add_node :: "digraph \<Rightarrow> nat \<Rightarrow> point \<Rightarrow> digraph" where
  "add_node G n pos =
     (if has_node G n
      then G\<lparr>nodes := map (\<lambda>(k, a). if k = n then (k, Some pos) else (k, a)) (nodes G)\<rparr>
      else G\<lparr>nodes := nodes G @ [(n, Some pos)]\<rparr>)"

definition touch_node :: "digraph \<Rightarrow> nat \<Rightarrow> digraph" where
  "touch_node G n = (if has_node G n then G else G\<lparr>nodes := nodes G @ [(n, None)]\<rparr>)"

definition add_edge :: "digraph \<Rightarrow> nat \<times> nat \<Rightarrow> digraph" where
  "add_edge G e =
     (let G1 = touch_node (touch_node G (fst e)) (snd e)
      in if e \<in> set (edges G1) then G1 else G1\<lparr>edges := edges G1 @ [e]\<rparr>)"

definition add_edges_from :: "digraph \<Rightarrow> (nat \<times> nat) list \<Rightarrow> digraph" where
  "add_edges_from G es = foldl add_edge G es"

text \<open>
  What the two loops of \<open>causal_set_graph\<close> change: the edge list, the \<open>periodic\<close> list
  (which \<open>minkowski_periodic\<close> may extend) and the random generator.
\<close>

record cs_state =
  edgelist :: "(nat \<times> nat) list"
  periodic :: "real option list option"
  gen :: rng

definition list_truthy :: "real option list option \<Rightarrow> bool" where
  "list_truthy L = (case L of None \<Rightarrow> False | Some l \<Rightarrow> l \<noteq> [])"

text \<open>\<open>p == 1. or p > np.random.random()\<close>: no number is drawn when \<open>p\<close> is 1.\<close>

definition accept_edge :: "real \<Rightarrow> rng \<Rightarrow> bool \<times> rng" where
  "accept_edge p g = (if p = 1 then (True, g) else (p > g 0, \<lambda>k. g (Suc k)))"

definition causal_pair :: "matrix \<Rightarrow> real \<Rightarrow> nat \<Rightarrow> nat \<Rightarrow> cs_state \<Rightarrow> error + cs_state" where
  "causal_pair R p i j s =
     (if R ! i = [] \<or> R ! j = [] then Inl IndexError
      else if R ! i ! 0 < R ! j ! 0 then
        (case accept_edge p (gen s) of
           (ok, g1) \<Rightarrow>
             if ok then
               (if list_truthy (periodic s) then
                  (case minkowski_periodic (R ! i) (R ! j) (the (periodic s)) of
                     (Inl e, L1) \<Rightarrow> Inl e
                   | (Inr v, L1) \<Rightarrow>
                       Inr (s\<lparr>edgelist := (if v < 0 then edgelist s @ [(i, j)] else edgelist s),
                              periodic := Some L1, gen := g1\<rparr>))
                else
                  (case minkowski (R ! i) (R ! j) of
                     Inl e \<Rightarrow> Inl e
                   | Inr v \<Rightarrow>
                       Inr (s\<lparr>edgelist := (if v < 0 then edgelist s @ [(i, j)] else edgelist s),
                              gen := g1\<rparr>)))
             else Inr (s\<lparr>gen := g1\<rparr>))
      else Inr s)"

fun inner_loop :: "matrix \<Rightarrow> real \<Rightarrow> nat \<Rightarrow> nat list \<Rightarrow> cs_state \<Rightarrow> error + cs_state" where
  "inner_loop R p i [] s = Inr s"
| "inner_loop R p i (j # js) s =
     (case causal_pair R p i j s of
        Inl e \<Rightarrow> Inl e
      | Inr s1 \<Rightarrow> inner_loop R p i js s1)"

fun outer_loop ::
  "matrix \<Rightarrow> real \<Rightarrow> nat list \<Rightarrow> digraph \<Rightarrow> cs_state \<Rightarrow> error + digraph \<times> cs_state" where
  "outer_loop R p [] G s = Inr (G, s)"
| "outer_loop R p (i # is) G s =
     (let G1 = add_node G i (R ! i)
      in case inner_loop R p i [0..<length R] s of
           Inl e \<Rightarrow> Inl e
         | Inr s1 \<Rightarrow> outer_loop R p is G1 s1)"

text \<open>
  \<open>causal_set_graph(R, p, periodic)\<close>; \<open>R\<close> is a two-dimensional array, the list of its
  \<open>N\<close> rows, all of one length \<open>D\<close>. The result is the graph, with the final state of the
  \<open>periodic\<close> list and of the generator.
\<close>

definition causal_set_graph ::
  "matrix \<Rightarrow> real \<Rightarrow> real option list option \<Rightarrow> rng \<Rightarrow> error + digraph \<times> cs_state" where
  "causal_set_graph R p per g =
     (case outer_loop R p [0..<length R] DiGraph
             \<lparr>edgelist = [], periodic = per, gen = g\<rparr> of
        Inl e \<Rightarrow> Inl e
      | Inr (G, s) \<Rightarrow> Inr (add_edges_from G (edgelist s), s))"

section \<open>Point samplers\<close>

text \<open>
  \<open>np.random.random((N, D))\<close>, \<open>np.random.randn(N, D)\<close>: the next \<open>N * D\<close> values of the
  generator, row by row; a negative dimension is refused. \<open>np.random.random(D)\<close> and
  \<open>np.random.rand(N)\<close>: the next values as one vector.
\<close>

definition random_sample :: "int \<Rightarrow> int \<Rightarrow> rng \<Rightarrow> error + matrix \<times> rng" where
  "random_sample N D g =
     (if N < 0 \<or> D < 0 then Inl ValueError
      else Inr (map (\<lambda>i. map (\<lambda>j. g (i * nat D + j)) [0..<nat D]) [0..<nat N],
                \<lambda>k. g (nat N * nat D + k)))"

definition random_vector :: "nat \<Rightarrow> rng \<Rightarrow> point \<times> rng" where
  "random_vector D g = (map g [0..<D], \<lambda>k. g (D + k))"

text \<open>The ends of the interval: \<open>a = (0, 0.5, ..., 0.5)\<close> and \<open>b = (1, 0.5, ..., 0.5)\<close>.\<close>

definition interval_a :: "nat \<Rightarrow> point" where
  "interval_a D = take 1 (replicate D 0) @ replicate (D - 1) (1 / 2)"

definition interval_b :: "nat \<Rightarrow> point" where
  "interval_b D = take 1 ((replicate D 0)[0 := 1]) @ replicate (D - 1) (1 / 2)"

text \<open>
  The rejection loop of one row: draw again while the row is spacelike to \<open>a\<close> or to
  \<open>b\<close>. Nothing bounds the number of draws, so the loop may run forever: the value
  \<open>None\<close>.
\<close>

partial_function (option) resample ::
  "point \<Rightarrow> point \<Rightarrow> nat \<Rightarrow> point \<Rightarrow> rng \<Rightarrow> (error + point \<times> rng) option" where
  "resample a b D r g =
     (case minkowski a r of
        Inl e \<Rightarrow> Some (Inl e)
      | Inr s1 \<Rightarrow>
          if s1 > 0
          then (case random_vector D g of (r1, g1) \<Rightarrow> resample a b D r1 g1)
          else (case minkowski r b of
                  Inl e \<Rightarrow> Some (Inl e)
                | Inr s2 \<Rightarrow>
                    if s2 > 0
                    then (case random_vector D g of (r1, g1) \<Rightarrow> resample a b D r1 g1)
                    else Some (Inr (r, g))))"

fun scatter_rows ::
  "point \<Rightarrow> point \<Rightarrow> nat \<Rightarrow> nat list \<Rightarrow> matrix \<Rightarrow> rng \<Rightarrow> (error + matrix \<times> rng) option" where
  "scatter_rows a b D [] R g = Some (Inr (R, g))"
| "scatter_rows a b D (i # is) R g =
     (case resample a b D (R ! i) g of
        None \<Rightarrow> None
      | Some (Inl e) \<Rightarrow> Some (Inl e)
      | Some (Inr (r, g1)) \<Rightarrow> scatter_rows a b D is (R[i := r]) g1)"

definition minkowski_interval_scatter ::
  "int \<Rightarrow> int \<Rightarrow> bool \<Rightarrow> rng \<Rightarrow> (error + matrix \<times> rng) option" where
  "minkowski_interval_scatter N D fix_ends g =
     (case random_sample N D g of
        Inl e \<Rightarrow> Some (Inl e)
      | Inr (R, g1) \<Rightarrow>
          let a = interval_a (nat D) in
          if D = 0 then Some (Inl IndexError)
          else let b = interval_b (nat D) in
            if fix_ends
            then (if N < 2 then Some (Inl IndexError)
                  else scatter_rows a b (nat D) [2..<nat N] (R[0 := a, 1 := b]) g1)
            else scatter_rows a b (nat D) [0..<nat N] R g1)"

definition minkowski_interval_map ::
  "int \<Rightarrow> int \<Rightarrow> bool \<Rightarrow> (error + matrix \<times> rng) option" where
  "minkowski_interval_map N D fix_ends =
     Some (Inl (AssertionError ''ERROR - minkowski_interval_map not implemented yet''))"

definition minkowski_interval ::
  "int \<Rightarrow> int \<Rightarrow> bool \<Rightarrow> string \<Rightarrow> rng \<Rightarrow> (error + matrix \<times> rng) option" where
  "minkowski_interval N D fix_ends method g =
     (if method = ''scatter'' then minkowski_interval_scatter N D fix_ends g
      else if method = ''map'' then minkowski_interval_map N D fix_ends
      else Some (Inl (AssertionError
             (''Invalid method '' @ method @ '' given to minkowski_interval''))))"

text \<open>
  \<open>sphere_surface_cartesian\<close>: every row of \<open>N * (D + 1)\<close> normal draws is divided by
  its Euclidean norm.
\<close>

definition sphere_surface_cartesian ::
  "int \<Rightarrow> int \<Rightarrow> rng \<Rightarrow> error + real option list list \<times> rng" where
  "sphere_surface_cartesian N D g =
     (case random_sample N (D + 1) g of
        Inl e \<Rightarrow> Inl e
      | Inr (R, g1) \<Rightarrow>
          let R_sq = map (map (\<lambda>v. v * v)) R;
              R_sq_sum = map (\<lambda>r. sqrt (sum_list r)) R_sq
          in Inr (map2 (\<lambda>r n. map (\<lambda>v. np_divide v n) r) R R_sq_sum, g1))"

text \<open>
  \<open>de_sitter_interval_scatter\<close>. One pass of its loop draws a batch from
  \<open>minkowski_interval\<close> and keeps the rows with \<open>m < sigma\<close>. A zero base under the
  negative exponent makes \<open>sigma\<close> infinite in numpy (the value \<open>None\<close> here), and every
  \<open>m\<close> is below it.
\<close>

definition sigma_power :: "real \<Rightarrow> int \<Rightarrow> real option" where
  "sigma_power base D = (if base = 0 \<and> 0 < D then None else Some (power_int base (- D)))"

definition below_sigma :: "real \<Rightarrow> real option \<Rightarrow> bool" where
  "below_sigma m sg = (case sg of None \<Rightarrow> True | Some v \<Rightarrow> m < v)"

definition de_sitter_batch ::
  "int \<Rightarrow> int \<Rightarrow> real \<Rightarrow> bool \<Rightarrow> matrix \<Rightarrow> rng \<Rightarrow> (error + matrix \<times> rng) option" where
  "de_sitter_batch N D KT2 fix_ends Z g =
     (case minkowski_interval N D fix_ends ''scatter'' g of
        None \<Rightarrow> None
      | Some (Inl e) \<Rightarrow> Some (Inl e)
      | Some (Inr (R0, g1)) \<Rightarrow>
          (case random_vector (nat N) g1 of
             (u, g2) \<Rightarrow>
               let R = map (\<lambda>r. take 1 r @ map (\<lambda>v. v - 1 / 2) (drop 1 r)) R0;
                   M = power_int (1 - KT2 * (1 / 4)) (- D);
                   m = map (\<lambda>v. v * M) u;
                   S = map (\<lambda>r. - 1 * (r ! 0) ^ 2 + sum_list (map (\<lambda>v. v ^ 2) (drop 1 r))) R;
                   sigma = map (\<lambda>s. sigma_power (1 + 1 / 4 * KT2 * s) D) S
               in Some (Inr (Z @ map fst (filter (\<lambda>(r, mi, si). below_sigma mi si)
                                             (zip R (zip m sigma))), g2))))"

partial_function (option) de_sitter_loop ::
  "int \<Rightarrow> int \<Rightarrow> real \<Rightarrow> bool \<Rightarrow> matrix \<Rightarrow> rng \<Rightarrow> (error + matrix \<times> rng) option" where
  "de_sitter_loop N D KT2 fix_ends Z g =
     (if int (length Z) < N
      then (case de_sitter_batch N D KT2 fix_ends Z g of
              None \<Rightarrow> None
            | Some (Inl e) \<Rightarrow> Some (Inl e)
            | Some (Inr (Z1, g1)) \<Rightarrow> de_sitter_loop N D KT2 fix_ends Z1 g1)
      else Some (Inr (Z, g)))"

definition de_sitter_interval_scatter ::
  "int \<Rightarrow> int \<Rightarrow> real \<Rightarrow> bool \<Rightarrow> rng \<Rightarrow> (error + matrix \<times> rng) option" where
  "de_sitter_interval_scatter N D KT2 fix_ends g =
     (if \<not> (0 < KT2 \<and> KT2 < 4)
      then Some (Inl (AssertionError ''KT^2 must be between 0 and 4 for this method''))
      else if D < 0 then Some (Inl ValueError)
      else (case de_sitter_loop N D KT2 fix_ends [] g of
              None \<Rightarrow> None
            | Some (Inl e) \<Rightarrow> Some (Inl e)
            | Some (Inr (Z, g1)) \<Rightarrow>
                if fix_ends
                then (if length Z < 2 \<or> D = 0 then Some (Inl IndexError)
                      else Some (Inr (take (nat N)
                             (Z[0 := replicate (nat D) 0,
                                1 := (replicate (nat D) 0)[0 := 1]]), g1)))
                else Some (Inr (take (nat N) Z, g1))))"

definition de_sitter_interval_map ::
  "int \<Rightarrow> int \<Rightarrow> real \<Rightarrow> bool \<Rightarrow> (error + matrix \<times> rng) option" where
  "de_sitter_interval_map N D KT2 fix_ends = Some (Inl (AssertionError ''Not implemented yet''))"

definition de_sitter_interval ::
  "int \<Rightarrow> int \<Rightarrow> real \<Rightarrow> bool \<Rightarrow> string \<Rightarrow> rng \<Rightarrow> (error + matrix \<times> rng) option" where
  "de_sitter_interval N D KT2 fix_ends method g =
     (if method = ''scatter'' then de_sitter_interval_scatter N D KT2 fix_ends g
      else if method = ''map'' then de_sitter_interval_map N D KT2 fix_ends
      else Some (Inl (AssertionError
             (''Invalid method '' @ method @ '' given to de_sitter_interval''))))"

section \<open>Notions used in the statements\<close>

text \<open>Two points are timelike separated when \<open>minkowski\<close> returns a negative number.\<close>

definition timelike :: "point \<Rightarrow> point \<Rightarrow> bool" where
  "timelike x y = (case minkowski x y of Inl e \<Rightarrow> False | Inr v \<Rightarrow> v < 0)"

definition non_spacelike :: "point \<Rightarrow> point \<Rightarrow> bool" where
  "non_spacelike x y = (case minkowski x y of Inl e \<Rightarrow> False | Inr v \<Rightarrow> v \<le> 0)"

text \<open>The edges that one pass of the inner loop of \<open>causal_set_graph\<close> appends for row \<open>i\<close>.\<close>

definition causal_row :: "matrix \<Rightarrow> nat \<Rightarrow> (nat \<times> nat) list" where
  "causal_row R i =
     map (Pair i)
       (filter (\<lambda>j. R ! i ! 0 < R ! j ! 0 \<and> timelike (R ! i) (R ! j)) [0..<length R])"

text \<open>The Euclidean norm of a row.\<close>

definition row_norm :: "real list \<Rightarrow> real" where
  "row_norm r = sqrt (sum_list (map (\<lambda>v. v * v) r))"

text \<open>
  Recursive forms of the two coordinate conversions, over the list of angles and over
  the list of Cartesian coordinates; they are proved equal to the loops of the source
  below. \<open>c2a\<close> covers vectors of two coordinates or more and includes the reflection
  of the last angle.
\<close>

definition sum_squares :: "real list \<Rightarrow> real" where
  "sum_squares v = sum_list (map (\<lambda>c. c ^ 2) v)"

fun a2c :: "real list \<Rightarrow> real list" where
  "a2c [] = [1]"
| "a2c (t # ts) = cos t # map (\<lambda>v. v * sin t) (a2c ts)"

fun c2a :: "real list \<Rightarrow> real option list" where
  "c2a (x # y # z # zs) =
     np_arccos (np_divide x (sqrt (sum_squares (x # y # z # zs)))) # c2a (y # z # zs)"
| "c2a [x, y] =
     [if y < 0
      then map_option (\<lambda>v. 2 * pi - v) (np_arccos (np_divide x (sqrt (sum_squares [x, y]))))
      else np_arccos (np_divide x (sqrt (sum_squares [x, y])))]"
| "c2a [x] = []"
| "c2a [] = []"

text \<open>Angles in their ranges: the last one in \<open>(0, 2\<pi>)\<close>, the others in \<open>(0, \<pi>)\<close>.\<close>

fun angle_ranges :: "real list \<Rightarrow> bool" where
  "angle_ranges [] = False"
| "angle_ranges [t] = (0 < t \<and> t < 2 * pi)"
| "angle_ranges (t # ts) = (0 < t \<and> t < pi \<and> angle_ranges ts)"

text \<open>
  Notions for the loops of the conversions: the product of the sines of the first \<open>k\<close>
  angles, the angles that the loop of \<open>cartesian_to_angular\<close> stores, and the
  reflection of the last of them.
\<close>

definition sin_prod :: "real list \<Rightarrow> nat \<Rightarrow> real" where
  "sin_prod a k = prod_list (map sin (take k a))"

fun plain_angles :: "real list \<Rightarrow> real option list" where
  "plain_angles (x # y # ys) =
     np_arccos (np_divide x (sqrt (sum_squares (x # y # ys)))) # plain_angles (y # ys)"
| "plain_angles [x] = []"
| "plain_angles [] = []"

definition reflect_last :: "real option list \<Rightarrow> real option list" where
  "reflect_last x = x[length x - 1 := map_option (\<lambda>v. 2 * pi - v) (last x)]"

section \<open>The metrics\<close>

subsection \<open>The loops of \<open>minkowski_periodic\<close>\<close>

lemma fill_None_eq:
  "fill_None L n = L @ replicate (nat (n - int (length L))) None"
proof (induction L n rule: fill_None.induct)
  case (1 L n)
  show ?case
  proof (cases "int (length L) < n")
    case True
    then have k: "nat (n - int (length L)) = Suc (nat (n - int (length (L @ [None]))))"
      by simp
    have "fill_None L n = fill_None (L @ [None]) n"
      using True by (subst fill_None.simps) simp
    also have "\<dots> = (L @ [None]) @ replicate (nat (n - int (length (L @ [None])))) None"
      using 1 True by simp
    also have "\<dots> = L @ replicate (nat (n - int (length L))) None"
      unfolding k by simp
    finally show ?thesis .
  next
    case False
    then show ?thesis by (subst fill_None.simps) simp
  qed
qed

lemma periodic_loop_fails:
  "ds \<noteq> [] \<Longrightarrow> periodic_loop x y L ds ds2 = Inl (UnboundLocalError ''dz2'')"
  by (cases ds) (simp_all add: Let_def)

text \<open>
  With two coordinates or more the \<open>for\<close> loop runs, so the call never returns a number,
  whatever \<open>L\<close> holds, while \<open>minkowski\<close> returns one. With the time coordinate alone the
  loop does not run and both return \<open>- dt * dt\<close>.
\<close>

lemma minkowski_periodic_raises:
  assumes "length y = length x" "2 \<le> length x"
  shows "fst (minkowski_periodic x y L) = Inl (UnboundLocalError ''dz2'') \<and>
         (\<exists>s. minkowski x y = Inr s)"
  using assms
  by (auto simp add: minkowski_periodic_def minkowski_def Let_def periodic_loop_fails)

lemma minkowski_periodic_time_only:
  assumes "length y = length x" "length x = 1"
  shows "fst (minkowski_periodic x y L) = minkowski x y"
  using assms
  by (cases x; cases y) (auto simp add: minkowski_periodic_def minkowski_def Let_def)

text \<open>
  Claim C1 says that \<open>minkowski_periodic(x, y, L)\<close> with every entry of \<open>L\<close> unbounded
  returns the value of \<open>minkowski(x, y)\<close>. The code does not: for \<open>x = [0, 0]\<close>,
  \<open>y = [1, 0]\<close> and \<open>L = []\<close> the call ends with \<open>UnboundLocalError\<close> on the
  accumulator \<open>dz2\<close> (after it has extended \<open>L\<close> to \<open>[None]\<close>), while
  \<open>minkowski\<close> returns \<open>-1\<close>.
\<close>

theorem minkowski_periodic_unbound_accumulator:
  "minkowski_periodic [0, 0] [1, 0] [] = (Inl (UnboundLocalError ''dz2''), [None]) \<and>
   minkowski [0, 0] [1, 0] = Inr (- 1)"
  by (simp add: minkowski_periodic_def minkowski_def fill_None_eq upt_rec)

subsection \<open>Points of different lengths\<close>

lemma de_sitter_mismatch:
  assumes "length x \<noteq> length y" "x \<noteq> []" "y \<noteq> []"
  shows "de_sitter x y =
           Inl (AssertionError ''ERROR - vectors in spherical metric have different lengths'')"
proof -
  from assms have "length (tl x) \<noteq> length (tl y)"
    by (cases x; cases y) simp_all
  with assms show ?thesis
    by (simp add: de_sitter_def spherical_def)
qed

text \<open>
  Where the lengths differ, \<open>euclidean\<close>, \<open>spherical\<close>, \<open>minkowski\<close> and
  \<open>minkowski_periodic\<close> fail with their length assertion before they read a coordinate
  (\<open>minkowski_periodic\<close> leaves \<open>L\<close> as it was). \<open>de_sitter\<close> has no check of its
  own: it reaches the assertion of \<open>spherical\<close> only after it has read \<open>x[0]\<close> and
  \<open>y[0]\<close>, that is, when both points are non-empty.
\<close>

lemma metrics_dimension_mismatch:
  assumes "length x \<noteq> length y"
  shows "euclidean x y =
           Inl (AssertionError ''ERROR - vectors in Euclidean metric have different lengths'') \<and>
         spherical x y =
           Inl (AssertionError ''ERROR - vectors in spherical metric have different lengths'') \<and>
         minkowski x y =
           Inl (AssertionError ''ERROR - vectors in Minkowski metric have different lengths'') \<and>
         minkowski_periodic x y L =
           (Inl (AssertionError ''ERROR - vectors in Minkowski metric have different lengths''), L) \<and>
         (x \<noteq> [] \<and> y \<noteq> [] \<longrightarrow> de_sitter x y =
           Inl (AssertionError ''ERROR - vectors in spherical metric have different lengths''))"
  using assms de_sitter_mismatch[of x y]
  by (simp add: euclidean_def spherical_def minkowski_def minkowski_periodic_def)

lemma metrics_dimension_mismatch_example:
  "length [0, 0 :: real] \<noteq> length [0, 0, 0 :: real] \<and>
   euclidean [0, 0] [0, 0, 0] =
     Inl (AssertionError ''ERROR - vectors in Euclidean metric have different lengths'') \<and>
   minkowski_periodic [0, 0] [0, 0, 0] [] =
     (Inl (AssertionError ''ERROR - vectors in Minkowski metric have different lengths''), []) \<and>
   de_sitter [0, 0] [0, 0, 0] =
     Inl (AssertionError ''ERROR - vectors in spherical metric have different lengths'')"
  using metrics_dimension_mismatch[of "[0, 0]" "[0, 0, 0]" "[]"] by simp

text \<open>
  Claim C3 says that for points \<open>x\<close>, \<open>y\<close> with \<open>len(x) != len(y)\<close> each of
  \<open>euclidean\<close>, \<open>spherical\<close>, \<open>minkowski\<close>, \<open>minkowski_periodic\<close> and \<open>de_sitter\<close>
  fails with the length assertion. The code of \<open>de_sitter\<close> does not: for \<open>x = []\<close> and
  \<open>y = [0]\<close> the four other metrics fail with their length assertion, as the claim
  says, while \<open>de_sitter\<close> reads \<open>x[0]\<close> first and ends with \<open>IndexError\<close>.
\<close>

theorem de_sitter_empty_point_index_error:
  "length ([] :: real list) \<noteq> length [0 :: real] \<and>
   euclidean [] [0] =
     Inl (AssertionError ''ERROR - vectors in Euclidean metric have different lengths'') \<and>
   spherical [] [0] =
     Inl (AssertionError ''ERROR - vectors in spherical metric have different lengths'') \<and>
   minkowski [] [0] =
     Inl (AssertionError ''ERROR - vectors in Minkowski metric have different lengths'') \<and>
   minkowski_periodic [] [0] [] =
     (Inl (AssertionError ''ERROR - vectors in Minkowski metric have different lengths''), []) \<and>
   de_sitter [] [0] = Inl IndexError"
  by (simp add: euclidean_def spherical_def minkowski_def minkowski_periodic_def de_sitter_def)

subsection \<open>The periodic list after the call\<close>

text \<open>
  Claim C10 as stated fails when the points differ in length: the assertion comes before
  the \<open>while\<close> loop, and the list is left as it was.
\<close>

theorem minkowski_periodic_mismatch_keeps_L:
  "int (length ([] :: real option list)) < int (length [0, 0, 0 :: real]) - 1 \<and>
   snd (minkowski_periodic [0, 0, 0] [0] []) = []"
  by (simp add: minkowski_periodic_def)

text \<open>
  Claim C10, amended: when \<open>len(y) = len(x) = D\<close> and \<open>len(L) < D - 1\<close>, the call
  appends \<open>None\<close> to the caller's list until its length is \<open>D - 1\<close>, so the list is
  longer after the call than before; a call that passes no \<open>L\<close> does this to the shared
  default list.
\<close>

theorem minkowski_periodic_extends_L:
  assumes "length y = length x" "int (length L) < int (length x) - 1"
  shows "snd (minkowski_periodic x y L) = L @ replicate (length x - 1 - length L) None \<and>
         length (snd (minkowski_periodic x y L)) = length x - 1 \<and>
         length L < length (snd (minkowski_periodic x y L)) \<and>
         default_L (snd (minkowski_periodic_default x y \<lparr>default_L = L\<rparr>)) =
           L @ replicate (length x - 1 - length L) None"
proof -
  have n: "nat (int (length x) - 1 - int (length L)) = length x - 1 - length L"
    by simp
  from assms have "snd (minkowski_periodic x y L) = L @ replicate (length x - 1 - length L) None"
    by (simp add: minkowski_periodic_def Let_def fill_None_eq n del: One_nat_def)
  with assms show ?thesis
    by (simp add: minkowski_periodic_default_def case_prod_beta)
qed

theorem minkowski_periodic_extends_L_witness:
  "length [1, 0, 0 :: real] = length [0, 0, 0 :: real] \<and>
   int (length ([] :: real option list)) < int (length [0, 0, 0 :: real]) - 1 \<and>
   snd (minkowski_periodic [0, 0, 0] [1, 0, 0] []) = [None, None]"
  using minkowski_periodic_extends_L[of "[1, 0, 0]" "[0, 0, 0]" "[]"]
  by (simp add: numeral_eq_Suc)

section \<open>The causal set graph\<close>

subsection \<open>The loops without edge probability and without periods\<close>

lemma minkowski_Inr:
  "length x = length y \<Longrightarrow> x \<noteq> [] \<Longrightarrow> \<exists>v. minkowski x y = Inr v"
  by (simp add: minkowski_def Let_def)

lemma causal_pair_plain:
  assumes "\<not> list_truthy (periodic s)" "length (R ! i) = length (R ! j)" "R ! i \<noteq> []"
  shows "causal_pair R 1 i j s =
         Inr (s\<lparr>edgelist := edgelist s @
                (if R ! i ! 0 < R ! j ! 0 \<and> timelike (R ! i) (R ! j) then [(i, j)] else [])\<rparr>)"
proof -
  from assms obtain v where v: "minkowski (R ! i) (R ! j) = Inr v"
    using minkowski_Inr by blast
  from assms have "R ! j \<noteq> []" by auto
  with assms v show ?thesis
    by (simp add: causal_pair_def accept_edge_def timelike_def)
qed

lemma inner_loop_plain:
  assumes "\<not> list_truthy (periodic s)" "\<forall>j \<in> set js. length (R ! i) = length (R ! j)"
    "R ! i \<noteq> []"
  shows "inner_loop R 1 i js s =
         Inr (s\<lparr>edgelist := edgelist s @
                map (Pair i)
                  (filter (\<lambda>j. R ! i ! 0 < R ! j ! 0 \<and> timelike (R ! i) (R ! j)) js)\<rparr>)"
  using assms
proof (induction js arbitrary: s)
  case Nil
  then show ?case by simp
next
  case (Cons j js)
  then show ?case by (simp add: causal_pair_plain)
qed

lemma outer_loop_plain:
  assumes "\<not> list_truthy (periodic s)" "\<forall>r \<in> set R. length r = D" "0 < D"
    "set is \<subseteq> {0..<length R}"
  shows "outer_loop R 1 is G s =
         Inr (foldl (\<lambda>H i. add_node H i (R ! i)) G is,
              s\<lparr>edgelist := edgelist s @ concat (map (causal_row R) is)\<rparr>)"
  using assms
proof (induction "is" arbitrary: G s)
  case Nil
  then show ?case by simp
next
  case (Cons i "is")
  then have i: "i < length R" by simp
  with Cons.prems have ne: "R ! i \<noteq> []" by (metis length_greater_0_conv nth_mem)
  have eq: "\<forall>j \<in> set [0..<length R]. length (R ! i) = length (R ! j)"
    using Cons.prems(2) i by simp
  show ?case
    using Cons.prems Cons.IH
    by (simp add: inner_loop_plain[OF Cons.prems(1) eq ne] causal_row_def)
qed

lemma set_causal_rows:
  "set (concat (map (causal_row R) [0..<length R])) =
   {(i, j). i < length R \<and> j < length R \<and> R ! i ! 0 < R ! j ! 0 \<and> timelike (R ! i) (R ! j)}"
  by (auto simp add: causal_row_def)

subsection \<open>Nodes and edges of the graph operations\<close>

lemma nodes_add_node: "fst ` set (nodes (add_node G n pos)) = insert n (fst ` set (nodes G))"
  by (force simp add: add_node_def has_node_def split: if_splits)

lemma edges_add_node: "edges (add_node G n pos) = edges G"
  by (simp add: add_node_def)

lemma nodes_fold_add_node:
  "fst ` set (nodes (foldl (\<lambda>H i. add_node H i (f i)) G is)) = fst ` set (nodes G) \<union> set is"
  by (induction "is" arbitrary: G) (auto simp add: nodes_add_node)

lemma edges_fold_add_node:
  "edges (foldl (\<lambda>H i. add_node H i (f i)) G is) = edges G"
  by (induction "is" arbitrary: G) (auto simp add: edges_add_node)

lemma nodes_touch_node: "fst ` set (nodes (touch_node G n)) = insert n (fst ` set (nodes G))"
  by (auto simp add: touch_node_def has_node_def)

lemma edges_touch_node: "edges (touch_node G n) = edges G"
  by (simp add: touch_node_def)

lemma nodes_add_edge:
  "fst ` set (nodes (add_edge G e)) = insert (fst e) (insert (snd e) (fst ` set (nodes G)))"
  by (auto simp add: add_edge_def Let_def nodes_touch_node)

lemma edges_add_edge: "set (edges (add_edge G e)) = insert e (set (edges G))"
  by (auto simp add: add_edge_def Let_def edges_touch_node)

lemma nodes_add_edges_from:
  "fst ` set (nodes (add_edges_from G es)) =
   fst ` set (nodes G) \<union> fst ` set es \<union> snd ` set es"
  unfolding add_edges_from_def
  by (induction es arbitrary: G) (auto simp add: nodes_add_edge)

lemma edges_add_edges_from:
  "set (edges (add_edges_from G es)) = set (edges G) \<union> set es"
  unfolding add_edges_from_def
  by (induction es arbitrary: G) (auto simp add: edges_add_edge)

text \<open>A relation whose every pair climbs along a real-valued rank has no cycle.\<close>

lemma acyclic_increasing:
  fixes f :: "nat \<Rightarrow> real"
  assumes "\<forall>(i, j) \<in> E. f i < f j"
  shows "acyclic E"
proof -
  have "(a, b) \<in> E\<^sup>+ \<Longrightarrow> f a < f b" for a b
    by (induction rule: trancl.induct) (use assms in force)+
  then show ?thesis unfolding acyclic_def by force
qed

text \<open>
  Claim C2: for every coordinate matrix \<open>R\<close> (\<open>N\<close> rows of \<open>D \<ge> 1\<close> columns, column 0
  the time), \<open>causal_set_graph(R, p=1.0, periodic=None)\<close> returns a graph whose node set
  is \<open>{0..N-1}\<close> and which has the edge \<open>(i, j)\<close> if and only if \<open>R[i,0] < R[j,0]\<close> and
  \<open>minkowski(R[i], R[j]) < 0\<close>; so every edge points from the earlier to the later time
  coordinate, there is no self-loop, and the graph is acyclic. The time coordinates need
  not be distinct for this.
\<close>

theorem causal_set_graph_dag:
  assumes "\<forall>r \<in> set R. length r = D" "0 < D"
  shows "\<exists>G s. causal_set_graph R 1 None g = Inr (G, s) \<and>
           fst ` set (nodes G) = {0..<length R} \<and>
           (\<forall>i j. (i, j) \<in> set (edges G) \<longleftrightarrow>
                     i < length R \<and> j < length R \<and> R ! i ! 0 < R ! j ! 0 \<and>
                     (\<exists>v. minkowski (R ! i) (R ! j) = Inr v \<and> v < 0)) \<and>
           (\<forall>(i, j) \<in> set (edges G). R ! i ! 0 < R ! j ! 0) \<and>
           (\<forall>i. (i, i) \<notin> set (edges G)) \<and>
           acyclic (set (edges G))"
proof -
  let ?s = "\<lparr>edgelist = [], periodic = None, gen = g\<rparr>"
  let ?es = "concat (map (causal_row R) [0..<length R])"
  let ?G = "add_edges_from (foldl (\<lambda>H i. add_node H i (R ! i)) DiGraph [0..<length R]) ?es"
  have run: "outer_loop R 1 [0..<length R] DiGraph ?s =
             Inr (foldl (\<lambda>H i. add_node H i (R ! i)) DiGraph [0..<length R],
                  ?s\<lparr>edgelist := ?es\<rparr>)"
    using outer_loop_plain[of ?s R D "[0..<length R]" DiGraph] assms
    by (simp add: list_truthy_def)
  have res: "causal_set_graph R 1 None g = Inr (?G, ?s\<lparr>edgelist := ?es\<rparr>)"
    by (simp add: causal_set_graph_def run)
  have E: "set (edges ?G) =
        {(i, j). i < length R \<and> j < length R \<and> R ! i ! 0 < R ! j ! 0 \<and>
                 timelike (R ! i) (R ! j)}"
    unfolding edges_add_edges_from edges_fold_add_node set_causal_rows
    by (simp add: DiGraph_def)
  have V: "fst ` set (nodes ?G) = {0..<length R}"
    unfolding nodes_add_edges_from nodes_fold_add_node set_causal_rows
    by (auto simp add: DiGraph_def image_iff)
  have tl: "timelike x y \<longleftrightarrow> (\<exists>v. minkowski x y = Inr v \<and> v < 0)" for x y
    by (auto simp add: timelike_def split: sum.splits)
  have inc: "\<forall>(i, j) \<in> set (edges ?G). R ! i ! 0 < R ! j ! 0"
    unfolding E by auto
  have "acyclic (set (edges ?G))"
    using acyclic_increasing[of "set (edges ?G)" "\<lambda>i. R ! i ! 0"] inc by blast
  moreover have "\<forall>i. (i, i) \<notin> set (edges ?G)"
    unfolding E by auto
  moreover have "\<forall>i j. (i, j) \<in> set (edges ?G) \<longleftrightarrow>
                     i < length R \<and> j < length R \<and> R ! i ! 0 < R ! j ! 0 \<and>
                     (\<exists>v. minkowski (R ! i) (R ! j) = Inr v \<and> v < 0)"
    unfolding E tl[symmetric] by auto
  ultimately show ?thesis
    using res V inc by blast
qed

theorem causal_set_graph_dag_witness:
  "list_all (\<lambda>r. length r = 2) [[0, 0], [2, 1], [1, 3 :: real]] \<and> (0::nat) < 2 \<and>
   (\<exists>G s. causal_set_graph [[0, 0], [2, 1], [1, 3]] 1 None (\<lambda>k. 0) = Inr (G, s) \<and>
           fst ` set (nodes G) = {0..<3} \<and>
           (\<forall>(i, j) \<in> set (edges G). [[0, 0], [2, 1], [1, 3 :: real]] ! i ! 0
                                        < [[0, 0], [2, 1], [1, 3]] ! j ! 0) \<and>
           acyclic (set (edges G)))"
proof -
  have h: "\<forall>r \<in> set [[0, 0], [2, 1], [1, 3 :: real]]. length r = 2" "(0::nat) < 2"
    by simp_all
  from causal_set_graph_dag[OF h, of "\<lambda>k. 0"] obtain G s where
    "causal_set_graph [[0, 0], [2, 1], [1, 3]] 1 None (\<lambda>k. 0) = Inr (G, s)"
    "fst ` set (nodes G) = {0..<length [[0, 0], [2, 1], [1, 3 :: real]]}"
    "\<forall>(i, j) \<in> set (edges G). [[0, 0], [2, 1], [1, 3 :: real]] ! i ! 0
                                        < [[0, 0], [2, 1], [1, 3]] ! j ! 0"
    "acyclic (set (edges G))"
    by blast
  then have "\<exists>G s. causal_set_graph [[0, 0], [2, 1], [1, 3]] 1 None (\<lambda>k. 0) = Inr (G, s) \<and>
           fst ` set (nodes G) = {0..<3} \<and>
           (\<forall>(i, j) \<in> set (edges G). [[0, 0], [2, 1], [1, 3 :: real]] ! i ! 0
                                        < [[0, 0], [2, 1], [1, 3]] ! j ! 0) \<and>
           acyclic (set (edges G))"
    by (intro exI[of _ G] exI[of _ s]) (simp add: numeral_3_eq_3)
  then show ?thesis by simp
qed

text \<open>
  Claim C6: for \<open>R = [[0,0],[1,0],[2,0]]\<close> and \<open>p = 1.0\<close>, \<open>causal_set_graph\<close> returns a
  graph with exactly the three edges \<open>0\<rightarrow>1\<close>, \<open>0\<rightarrow>2\<close> and \<open>1\<rightarrow>2\<close>; and
  \<open>minkowski([0,0],[1,0])\<close> is \<open>-1\<close>.
\<close>

theorem causal_set_graph_chain:
  "causal_set_graph [[0, 0], [1, 0], [2, 0]] 1 None g =
     Inr (\<lparr>nodes = [(0, Some [0, 0]), (1, Some [1, 0]), (2, Some [2, 0])],
           edges = [(0, 1), (0, 2), (1, 2)]\<rparr>,
          \<lparr>edgelist = [(0, 1), (0, 2), (1, 2)], periodic = None, gen = g\<rparr>) \<and>
   minkowski [0, 0] [1, 0] = Inr (- 1)"
proof -
  have upt3: "[0..<3] = [0, 1, 2]" by (simp add: upt_rec)
  show ?thesis
    by (simp add: causal_set_graph_def upt3 causal_pair_def minkowski_def accept_edge_def
        list_truthy_def DiGraph_def add_node_def has_node_def add_edges_from_def add_edge_def
        touch_node_def Let_def)
qed

section \<open>The samplers\<close>

subsection \<open>Rejection sampling in the Minkowski interval\<close>

text \<open>
  Whatever the rejection loop of a row returns has passed both tests: by induction over
  the unfolding of the loop.
\<close>

lemma resample_result:
  assumes "resample a b D r g = Some y"
  shows "case y of Inl e \<Rightarrow> True | Inr (r1, g1) \<Rightarrow> non_spacelike a r1 \<and> non_spacelike r1 b"
proof (rule resample.raw_induct
    [where P = "\<lambda>a b D r g y. case y of Inl e \<Rightarrow> True
                  | Inr (r1, g1) \<Rightarrow> non_spacelike a r1 \<and> non_spacelike r1 b", OF _ assms])
  fix f a b D r g y
  assume IH: "\<And>a b D r g y. f a b D r g = Some y \<Longrightarrow>
               (case y of Inl e \<Rightarrow> True
                | Inr (r1, g1) \<Rightarrow> non_spacelike a r1 \<and> non_spacelike r1 b)"
    and step: "(case minkowski a r of
        Inl e \<Rightarrow> Some (Inl e)
      | Inr s1 \<Rightarrow>
          if s1 > 0
          then (case random_vector D g of (r1, g1) \<Rightarrow> f a b D r1 g1)
          else (case minkowski r b of
                  Inl e \<Rightarrow> Some (Inl e)
                | Inr s2 \<Rightarrow>
                    if s2 > 0
                    then (case random_vector D g of (r1, g1) \<Rightarrow> f a b D r1 g1)
                    else Some (Inr (r, g)))) = Some y"
  show "case y of Inl e \<Rightarrow> True | Inr (r1, g1) \<Rightarrow> non_spacelike a r1 \<and> non_spacelike r1 b"
  proof (cases "minkowski a r")
    case (Inl e)
    with step show ?thesis by auto
  next
    case s1: (Inr s1)
    show ?thesis
    proof (cases "s1 > 0")
      case True
      obtain r1 g1 where "random_vector D g = (r1, g1)" by force
      with True s1 step have "f a b D r1 g1 = Some y" by simp
      then show ?thesis by (rule IH)
    next
      case n1: False
      show ?thesis
      proof (cases "minkowski r b")
        case (Inl e)
        with s1 n1 step show ?thesis by auto
      next
        case s2: (Inr s2)
        show ?thesis
        proof (cases "s2 > 0")
          case True
          obtain r1 g1 where "random_vector D g = (r1, g1)" by force
          with True s1 n1 s2 step have "f a b D r1 g1 = Some y" by simp
          then show ?thesis by (rule IH)
        next
          case False
          with s1 n1 s2 step show ?thesis by (auto simp add: non_spacelike_def)
        qed
      qed
    qed
  qed
qed

lemma resample_accepts:
  assumes "resample a b D r g = Some (Inr (r1, g1))"
  shows "non_spacelike a r1 \<and> non_spacelike r1 b"
  using resample_result[OF assms] by simp

lemma scatter_rows_accepts:
  assumes "scatter_rows a b D is R g = Some (Inr (R1, g1))" "set is \<subseteq> {0..<length R}"
  shows "length R1 = length R \<and>
         (\<forall>k \<in> set is. non_spacelike a (R1 ! k) \<and> non_spacelike (R1 ! k) b) \<and>
         (\<forall>k. k \<notin> set is \<longrightarrow> R1 ! k = R ! k)"
  using assms
proof (induction "is" arbitrary: R g)
  case Nil
  then show ?case by simp
next
  case (Cons i "is")
  from Cons.prems(1) obtain r g2 where
    r: "resample a b D (R ! i) g = Some (Inr (r, g2))" and
    rest: "scatter_rows a b D is (R[i := r]) g2 = Some (Inr (R1, g1))"
    by (auto split: option.splits sum.splits)
  from Cons.prems(2) have i: "i < length R" and sub: "set is \<subseteq> {0..<length (R[i := r])}"
    by auto
  note IH = Cons.IH[OF rest sub]
  have acc: "non_spacelike a r \<and> non_spacelike r b"
    using resample_accepts[OF r] .
  have "non_spacelike a (R1 ! i) \<and> non_spacelike (R1 ! i) b"
  proof (cases "i \<in> set is")
    case True
    with IH show ?thesis by blast
  next
    case False
    with IH have "R1 ! i = R[i := r] ! i" by blast
    with i acc show ?thesis by simp
  qed
  moreover have "\<forall>k. k \<notin> set (i # is) \<longrightarrow> R1 ! k = R ! k"
    using IH by auto
  ultimately show ?case using IH by auto
qed

lemma interval_a_Cons: "0 < D \<Longrightarrow> interval_a D = 0 # replicate (D - 1) (1 / 2)"
  by (cases D) (simp_all add: interval_a_def)

lemma interval_b_Cons: "0 < D \<Longrightarrow> interval_b D = 1 # replicate (D - 1) (1 / 2)"
  by (cases D) (simp_all add: interval_b_def)

lemma minkowski_same_tail:
  "minkowski (s # xs) (t # xs) = Inr (- ((s - t) * (s - t)))"
proof -
  have "map (\<lambda>i. (s # xs) ! i - (t # xs) ! i) [1..<Suc (length xs)] = replicate (length xs) 0"
    by (rule nth_equalityI) (simp_all add: nth_Cons' del: upt_Suc)
  then show ?thesis
    by (simp add: minkowski_def Let_def sum_list_replicate del: upt_Suc)
qed

lemma ends_non_spacelike:
  "non_spacelike (0 # xs) (0 # xs)" "non_spacelike (0 # xs) (1 # xs)"
  "non_spacelike (1 # xs) (1 # xs)"
  by (simp_all add: non_spacelike_def minkowski_same_tail)

lemma random_sample_length:
  "random_sample N D g = Inr (R, g1) \<Longrightarrow> length R = nat N"
  by (auto simp add: random_sample_def split: if_splits)

text \<open>
  Claim C4: for every \<open>N \<ge> 2\<close> and \<open>D \<ge> 1\<close>, whenever
  \<open>minkowski_interval(N, D, fix_ends, method='scatter')\<close> returns a matrix \<open>R\<close>, every row
  \<open>r\<close> of \<open>R\<close> has \<open>minkowski(a, r) \<le> 0\<close> and \<open>minkowski(r, b) \<le> 0\<close> for
  \<open>a = (0, 0.5, ..., 0.5)\<close> and \<open>b = (1, 0.5, ..., 0.5)\<close>; and if \<open>fix_ends\<close> is true,
  row 0 is \<open>a\<close> and row 1 is \<open>b\<close>.
\<close>

theorem minkowski_interval_scatter_in_interval:
  assumes "2 \<le> N" "1 \<le> D"
    and "minkowski_interval N D fix_ends ''scatter'' g = Some (Inr (R, g1))"
  shows "length R = nat N \<and>
         (\<forall>r \<in> set R. (\<exists>s. minkowski (0 # replicate (nat D - 1) (1 / 2)) r = Inr s \<and> s \<le> 0) \<and>
                       (\<exists>s. minkowski r (1 # replicate (nat D - 1) (1 / 2)) = Inr s \<and> s \<le> 0)) \<and>
         (fix_ends \<longrightarrow> R ! 0 = 0 # replicate (nat D - 1) (1 / 2) \<and>
                        R ! 1 = 1 # replicate (nat D - 1) (1 / 2))"
proof -
  let ?a = "0 # replicate (nat D - 1) (1 / 2) :: real list"
  let ?b = "1 # replicate (nat D - 1) (1 / 2) :: real list"
  have a: "interval_a (nat D) = ?a" and b: "interval_b (nat D) = ?b"
    using assms(2) by (simp_all add: interval_a_Cons interval_b_Cons)
  have ns: "non_spacelike x y \<longleftrightarrow> (\<exists>s. minkowski x y = Inr s \<and> s \<le> 0)" for x y
    by (auto simp add: non_spacelike_def split: sum.splits)
  from assms(3) obtain R0 g0 where
    R0: "random_sample N D g = Inr (R0, g0)"
    by (auto simp add: minkowski_interval_def minkowski_interval_scatter_def split: sum.splits)
  then have len: "length R0 = nat N" by (rule random_sample_length)
  show ?thesis
  proof (cases fix_ends)
    case True
    let ?R = "R0[0 := ?a, 1 := ?b]"
    from assms R0 True
    have run: "scatter_rows ?a ?b (nat D) [2..<nat N] ?R g0 = Some (Inr (R, g1))"
      by (simp add: minkowski_interval_def minkowski_interval_scatter_def a b Let_def
          split: if_splits)
    have sub: "set [2..<nat N] \<subseteq> {0..<length ?R}" using len by auto
    note S = scatter_rows_accepts[OF run sub]
    have l: "length R = nat N" using S len by simp
    have r0: "R ! 0 = ?a" and r1: "R ! 1 = ?b"
      using S len assms(1) by auto
    have "non_spacelike ?a r \<and> non_spacelike r ?b" if "r \<in> set R" for r
    proof -
      from that obtain k where k: "k < nat N" "r = R ! k"
        using l by (metis in_set_conv_nth)
      consider "k = 0" | "k = 1" | "k \<in> set [2..<nat N]" using k by force
      then show ?thesis
      proof cases
        case 1 with k r0 show ?thesis by (simp add: ends_non_spacelike)
      next
        case 2 with k r1 show ?thesis by (simp add: ends_non_spacelike)
      next
        case 3 with k S show ?thesis by blast
      qed
    qed
    with l r0 r1 show ?thesis unfolding ns by blast
  next
    case False
    from assms R0 False
    have run: "scatter_rows ?a ?b (nat D) [0..<nat N] R0 g0 = Some (Inr (R, g1))"
      by (simp add: minkowski_interval_def minkowski_interval_scatter_def a b Let_def
          split: if_splits)
    have sub: "set [0..<nat N] \<subseteq> {0..<length R0}" using len by auto
    note S = scatter_rows_accepts[OF run sub]
    have l: "length R = nat N" using S len by simp
    have "non_spacelike ?a r \<and> non_spacelike r ?b" if "r \<in> set R" for r
    proof -
      from that obtain k where k: "k < nat N" "r = R ! k"
        using l by (metis in_set_conv_nth)
      then have "k \<in> set [0..<nat N]" by simp
      with k S show ?thesis by blast
    qed
    with l False show ?thesis unfolding ns by blast
  qed
qed

text \<open>
  A run with three points in two dimensions and fixed ends: the third row is first drawn
  as \<open>(0, 0)\<close>, which is spacelike to \<open>a\<close>, and the second draw \<open>(0.5, 0.5)\<close> is kept.
\<close>

lemma scatter_run:
  "\<exists>g1. minkowski_interval 3 2 True ''scatter'' (\<lambda>k. if k = 4 \<or> k = 5 then 0 else 1 / 2) =
     Some (Inr ([[0, 1 / 2], [1, 1 / 2], [1 / 2, 1 / 2]], g1))"
proof -
  have ends: "interval_a 2 = [0, 1 / 2]" "interval_b 2 = [1, 1 / 2]"
    by (simp_all add: interval_a_def interval_b_def numeral_2_eq_2)
  have upt: "[0..<3] = [0, 1, 2]" "[2..<3] = [2]" "[0..<2] = [0, 1]" "[1..<2] = [1]"
    by (simp_all add: upt_rec)
  show ?thesis
    apply (simp add: minkowski_interval_def minkowski_interval_scatter_def random_sample_def
        ends upt Let_def)
    apply (subst resample.simps)
    apply (simp add: minkowski_def random_vector_def upt)
    apply (subst resample.simps)
    apply (simp add: minkowski_def random_vector_def upt)
    done
qed

theorem minkowski_interval_scatter_in_interval_witness:
  "(2::int) \<le> 3 \<and> (1::int) \<le> 2 \<and>
   (\<exists>g1. minkowski_interval 3 2 True ''scatter'' (\<lambda>k. if k = 4 \<or> k = 5 then 0 else 1 / 2) =
     Some (Inr ([[0, 1 / 2], [1, 1 / 2], [1 / 2, 1 / 2]], g1))) \<and>
   list_all (\<lambda>r. (\<exists>s. minkowski (0 # replicate (nat 2 - 1) (1 / 2)) r = Inr s \<and> s \<le> 0) \<and>
                 (\<exists>s. minkowski r (1 # replicate (nat 2 - 1) (1 / 2)) = Inr s \<and> s \<le> 0))
     [[0, 1 / 2], [1, 1 / 2], [1 / 2, 1 / 2 :: real]]"
proof -
  obtain g1 where
    run: "minkowski_interval 3 2 True ''scatter'' (\<lambda>k. if k = 4 \<or> k = 5 then 0 else 1 / 2) =
     Some (Inr ([[0, 1 / 2], [1, 1 / 2], [1 / 2, 1 / 2]], g1))"
    using scatter_run by blast
  have le: "(2::int) \<le> 3" "(1::int) \<le> 2" by simp_all
  from minkowski_interval_scatter_in_interval[OF le run]
  have "\<forall>r \<in> set [[0, 1 / 2], [1, 1 / 2], [1 / 2, 1 / 2 :: real]].
       (\<exists>s. minkowski (0 # replicate (nat 2 - 1) (1 / 2)) r = Inr s \<and> s \<le> 0) \<and>
       (\<exists>s. minkowski r (1 # replicate (nat 2 - 1) (1 / 2)) = Inr s \<and> s \<le> 0)"
    by blast
  then have "list_all (\<lambda>r. (\<exists>s. minkowski (0 # replicate (nat 2 - 1) (1 / 2)) r = Inr s \<and> s \<le> 0) \<and>
                 (\<exists>s. minkowski r (1 # replicate (nat 2 - 1) (1 / 2)) = Inr s \<and> s \<le> 0))
     [[0, 1 / 2], [1, 1 / 2], [1 / 2, 1 / 2 :: real]]"
    unfolding list_all_iff .
  with le run show ?thesis by blast
qed

subsection \<open>The unimplemented method and the range of \<open>KT2\<close>\<close>

text \<open>
  Claim C7: for every \<open>N\<close>, \<open>D\<close> and \<open>KT2\<close>, \<open>minkowski_interval(N, D, method='map')\<close>
  and \<open>de_sitter_interval(N, D, KT2, method='map')\<close> fail with the assertion that the
  method is not implemented, and return no matrix.
\<close>

theorem map_method_not_implemented:
  "minkowski_interval N D fix_ends ''map'' g =
     Some (Inl (AssertionError ''ERROR - minkowski_interval_map not implemented yet'')) \<and>
   de_sitter_interval N D KT2 fix_ends ''map'' g =
     Some (Inl (AssertionError ''Not implemented yet''))"
  by (simp add: minkowski_interval_def minkowski_interval_map_def de_sitter_interval_def
      de_sitter_interval_map_def)

text \<open>
  Claim C8: for every \<open>N\<close> and \<open>D\<close>, \<open>de_sitter_interval(N, D, KT2)\<close> with the default
  method (\<open>'scatter'\<close>; \<open>fix_ends\<close> is \<open>False\<close> by default, and the same holds when it is
  \<open>True\<close>) fails with the assertion on the range of \<open>KT2\<close> whenever \<open>KT2 \<le> 0\<close> or
  \<open>KT2 \<ge> 4\<close>, and returns no matrix.
\<close>

theorem de_sitter_interval_invalid_KT2:
  assumes "KT2 \<le> 0 \<or> 4 \<le> KT2"
  shows "de_sitter_interval N D KT2 fix_ends ''scatter'' g =
     Some (Inl (AssertionError ''KT^2 must be between 0 and 4 for this method''))"
  using assms by (auto simp add: de_sitter_interval_def de_sitter_interval_scatter_def)

theorem de_sitter_interval_invalid_KT2_witness:
  "((4::real) \<le> 0 \<or> (4::real) \<le> 4) \<and>
   de_sitter_interval 5 2 4 False ''scatter'' (\<lambda>k. 1 / 2) =
     Some (Inl (AssertionError ''KT^2 must be between 0 and 4 for this method''))"
  using de_sitter_interval_invalid_KT2[of 4 5 2 False "\<lambda>k. 1 / 2"] by simp

subsection \<open>Points on the sphere\<close>

lemma sum_squares_nonneg: "0 \<le> sum_list (map (\<lambda>v. v * v) (r :: real list))"
  by (induction r) simp_all

lemma sum_squares_pos:
  "\<exists>v \<in> set r. v \<noteq> 0 \<Longrightarrow> 0 < sum_list (map (\<lambda>v. v * v) (r :: real list))"
proof (induction r)
  case Nil
  then show ?case by simp
next
  case (Cons a r)
  show ?case
  proof (cases "a = 0")
    case True
    with Cons show ?thesis by simp
  next
    case False
    then have "0 < a * a" by (metis not_real_square_gt_zero)
    with sum_squares_nonneg[of r] show ?thesis by simp
  qed
qed

lemma sum_squares_scaled:
  "sum_list (map (\<lambda>v. v * v) (map (\<lambda>v. v / n) r)) = sum_list (map (\<lambda>v. v * v) r) / (n * n)"
  for n :: real
  by (induction r) (simp_all add: add_divide_distrib)

lemma normalised_row:
  assumes "\<exists>v \<in> set r. v \<noteq> 0"
  shows "map (\<lambda>v. np_divide v (sqrt (sum_list (map (\<lambda>v. v * v) r)))) r =
           map Some (map (\<lambda>v. v / row_norm r) r) \<and>
         row_norm (map (\<lambda>v. v / row_norm r) r) = 1"
proof -
  let ?q = "sum_list (map (\<lambda>v. v * v) r)"
  have q: "0 < ?q" using assms by (rule sum_squares_pos)
  then have n: "row_norm r \<noteq> 0" and nn: "row_norm r * row_norm r = ?q"
    by (simp_all add: row_norm_def)
  have "row_norm (map (\<lambda>v. v / row_norm r) r) = sqrt (?q / (row_norm r * row_norm r))"
    unfolding row_norm_def[of "map (\<lambda>v. v / row_norm r) r"] sum_squares_scaled ..
  also have "\<dots> = 1" using q nn by simp
  finally have "row_norm (map (\<lambda>v. v / row_norm r) r) = 1" .
  moreover have "map (\<lambda>v. np_divide v (sqrt ?q)) r = map Some (map (\<lambda>v. v / row_norm r) r)"
    using n by (simp add: np_divide_def row_norm_def)
  ultimately show ?thesis by simp
qed

lemma map2_same: "map2 h xs (map f xs) = map (\<lambda>x. h x (f x)) xs"
  by (induction xs) simp_all

lemma sphere_surface_cartesian_rows:
  assumes "0 \<le> N" "0 \<le> D + 1"
  shows "sphere_surface_cartesian N D g =
     Inr (map (\<lambda>i. let r = map (\<lambda>j. g (i * nat (D + 1) + j)) [0..<nat (D + 1)]
                    in map (\<lambda>v. np_divide v (sqrt (sum_list (map (\<lambda>v. v * v) r)))) r)
            [0..<nat N],
          \<lambda>k. g (nat N * nat (D + 1) + k))"
  using assms
  by (simp add: sphere_surface_cartesian_def random_sample_def Let_def map2_same comp_def)

text \<open>
  Claim C9: for every \<open>N \<ge> 1\<close> and \<open>D \<ge> 1\<close>, \<open>sphere_surface_cartesian(N, D)\<close> returns
  \<open>N\<close> rows, and every row whose \<open>D + 1\<close> normal draws are not all zero has Euclidean
  norm exactly 1, over the real numbers.
\<close>

theorem sphere_surface_cartesian_unit_norm:
  assumes "1 \<le> N" "1 \<le> D"
  shows "\<exists>X g1. sphere_surface_cartesian N D g = Inr (X, g1) \<and> length X = nat N \<and>
           (\<forall>i < nat N. (\<exists>j < nat (D + 1). g (i * nat (D + 1) + j) \<noteq> 0) \<longrightarrow>
              (\<exists>r. X ! i = map Some r \<and> length r = nat (D + 1) \<and> row_norm r = 1))"
proof -
  let ?row = "\<lambda>i. map (\<lambda>j. g (i * nat (D + 1) + j)) [0..<nat (D + 1)]"
  let ?X = "map (\<lambda>i. map (\<lambda>v. np_divide v (sqrt (sum_list (map (\<lambda>v. v * v) (?row i)))))
                       (?row i)) [0..<nat N]"
  have run: "sphere_surface_cartesian N D g = Inr (?X, \<lambda>k. g (nat N * nat (D + 1) + k))"
    using assms sphere_surface_cartesian_rows[of N D g] by (simp add: Let_def)
  have "\<exists>r. ?X ! i = map Some r \<and> length r = nat (D + 1) \<and> row_norm r = 1"
    if i: "i < nat N" and nz: "\<exists>j < nat (D + 1). g (i * nat (D + 1) + j) \<noteq> 0" for i
  proof -
    from nz have "\<exists>v \<in> set (?row i). v \<noteq> 0" by auto
    from normalised_row[OF this] i show ?thesis
      by (intro exI[of _ "map (\<lambda>v. v / row_norm (?row i)) (?row i)"]) simp
  qed
  with run show ?thesis by (intro exI[of _ ?X] exI) simp
qed

theorem sphere_surface_cartesian_unit_norm_witness:
  "(1::int) \<le> 1 \<and> (1::int) \<le> 1 \<and>
   (\<exists>X g1. sphere_surface_cartesian 1 1 (\<lambda>k. if k = 0 then 3 else 4) = Inr (X, g1) \<and>
      (\<exists>r. X ! 0 = map Some r \<and> length r = 2 \<and> row_norm r = 1))"
proof -
  have h: "(1::int) \<le> 1" by simp
  from sphere_surface_cartesian_unit_norm[OF h h, of "\<lambda>k. if k = 0 then 3 else 4"]
  obtain X g1 where
    run: "sphere_surface_cartesian 1 1 (\<lambda>k. if k = 0 then 3 else 4) = Inr (X, g1)" and
    rows: "\<forall>i < nat 1. (\<exists>j < nat (1 + 1).
                (if i * nat (1 + 1) + j = 0 then 3 else (4::real)) \<noteq> 0) \<longrightarrow>
              (\<exists>r. X ! i = map Some r \<and> length r = nat (1 + 1) \<and> row_norm r = 1)"
    by blast
  have "\<exists>j < nat (1 + 1). (if 0 * nat (1 + 1) + j = 0 then 3 else (4::real)) \<noteq> 0"
    by (intro exI[of _ 0]) simp
  with rows have "\<exists>r. X ! 0 = map Some r \<and> length r = nat (1 + 1) \<and> row_norm r = 1"
    by simp
  then have "\<exists>r. X ! 0 = map Some r \<and> length r = 2 \<and> row_norm r = 1" by simp
  with run h show ?thesis by blast
qed

section \<open>Coordinate conversion\<close>

subsection \<open>The loop of \<open>angular_to_cartesian\<close>\<close>

lemma sin_prod_0: "sin_prod a 0 = 1" by (simp add: sin_prod_def)

lemma sin_prod_Suc: "k < length a \<Longrightarrow> sin_prod a (Suc k) = sin_prod a k * sin (a ! k)"
  by (simp add: sin_prod_def take_Suc_conv_app_nth)

lemma sin_prod_Cons: "sin_prod (t # ts) (Suc k) = sin t * sin_prod ts k"
  by (simp add: sin_prod_def)

lemma a2c_loop_invariant:
  "k \<le> length a \<Longrightarrow>
   foldl (a2c_step a) (replicate (length a + 1) 1) [0..<k] =
     map (\<lambda>j. sin_prod a j * cos (a ! j)) [0..<k] @ replicate (length a + 1 - k) (sin_prod a k)"
proof (induction k)
  case 0
  then show ?case by (simp add: sin_prod_0)
next
  case (Suc k)
  let ?front = "map (\<lambda>j. sin_prod a j * cos (a ! j)) [0..<k]"
  have len: "length ?front = k" by simp
  have rep: "replicate (length a + 1 - k) (sin_prod a k) =
             sin_prod a k # replicate (length a - k) (sin_prod a k)"
    using Suc.prems by (simp add: Suc_diff_le flip: replicate_Suc)
  have IH: "foldl (a2c_step a) (replicate (length a + 1) 1) [0..<k] =
            ?front @ sin_prod a k # replicate (length a - k) (sin_prod a k)"
    using Suc.IH Suc.prems unfolding rep by simp
  have "foldl (a2c_step a) (replicate (length a + 1) 1) [0..<Suc k] =
        a2c_step a (foldl (a2c_step a) (replicate (length a + 1) 1) [0..<k]) k"
    by simp
  also have "\<dots> = a2c_step a (?front @ sin_prod a k # replicate (length a - k) (sin_prod a k)) k"
    unfolding IH ..
  also have "\<dots> = (?front @ [sin_prod a k * cos (a ! k)]) @
                   replicate (length a - k) (sin_prod a k * sin (a ! k))"
    by (simp add: a2c_step_def Let_def nth_append list_update_append len)
  also have "\<dots> = map (\<lambda>j. sin_prod a j * cos (a ! j)) [0..<Suc k] @
                   replicate (length a + 1 - Suc k) (sin_prod a (Suc k))"
    using Suc.prems by (simp add: sin_prod_Suc)
  finally show ?case .
qed

lemma a2c_closed_form:
  "a2c a = map (\<lambda>j. sin_prod a j * cos (a ! j)) [0..<length a] @ [sin_prod a (length a)]"
proof (induction a)
  case Nil
  then show ?case by (simp add: sin_prod_0)
next
  case (Cons t ts)
  have "map (\<lambda>j. sin_prod (t # ts) j * cos ((t # ts) ! j)) [0..<length (t # ts)] =
        cos t # map (\<lambda>j. sin_prod ts j * cos (ts ! j) * sin t) [0..<length ts]"
    by (simp add: upt_conv_Cons map_Suc_upt[symmetric] sin_prod_0 sin_prod_Cons del: upt_Suc)
  then show ?case
    using Cons by (simp add: sin_prod_Cons mult_ac del: upt_Suc)
qed

lemma angular_to_cartesian_a2c: "angular_to_cartesian a = a2c a"
  using a2c_loop_invariant[of "length a" a]
  by (simp add: angular_to_cartesian_def a2c_closed_form)

subsection \<open>The loop of \<open>cartesian_to_angular\<close>\<close>

lemma sq_norm_from_0: "sq_norm_from 0 a = sum_squares a"
  by (simp add: sq_norm_from_def sum_squares_def)

lemma sq_norm_from_Suc: "sq_norm_from (Suc i) (x # a) = sq_norm_from i a"
  by (simp add: sq_norm_from_def)

lemma loop_plain_angles:
  "map (\<lambda>i. np_arccos (np_divide (a ! i) (sqrt (sq_norm_from i a)))) [0..<length a - Suc 0] =
   plain_angles a"
proof (induction a rule: plain_angles.induct)
  case (1 x y ys)
  have "[0..<length (x # y # ys) - Suc 0] = 0 # map Suc [0..<length (y # ys) - Suc 0]"
    by (simp add: upt_conv_Cons map_Suc_upt del: upt_Suc)
  then show ?case
    using 1 by (simp add: sq_norm_from_0 sq_norm_from_Suc comp_def del: upt_Suc)
qed simp_all

lemma length_plain_angles: "length (plain_angles a) = length a - 1"
  by (induction a rule: plain_angles.induct) simp_all

lemma reflect_last_Cons: "x \<noteq> [] \<Longrightarrow> reflect_last (A # x) = A # reflect_last x"
  by (cases x) (simp_all add: reflect_last_def)

lemma reflect_plain_angles:
  "(if last a < 0 then reflect_last (plain_angles a) else plain_angles a) = c2a a"
  if "2 \<le> length a"
  using that
proof (induction a rule: c2a.induct)
  case (1 x y z zs)
  let ?w = "y # z # zs"
  from 1 have IH: "(if last ?w < 0 then reflect_last (plain_angles ?w) else plain_angles ?w) =
                   c2a ?w" by simp
  have ne: "plain_angles ?w \<noteq> []" by simp
  have pa: "plain_angles (x # ?w) =
            np_arccos (np_divide x (sqrt (sum_squares (x # ?w)))) # plain_angles ?w"
    by simp
  have l: "last (x # ?w) = last ?w" by simp
  show ?case
    unfolding pa l c2a.simps(1) IH[symmetric]
    using reflect_last_Cons[OF ne] by simp
next
  case (2 x y)
  then show ?case by (simp add: reflect_last_def)
qed simp_all

lemma cartesian_to_angular_c2a:
  assumes "2 \<le> length a"
  shows "cartesian_to_angular a = Inr (c2a a)"
proof -
  have ne: "plain_angles a \<noteq> []"
    using assms length_plain_angles[of a] by auto
  have "cartesian_to_angular a =
        Inr (if last a < 0 then reflect_last (plain_angles a) else plain_angles a)"
    using assms ne by (auto simp add: cartesian_to_angular_def Let_def loop_plain_angles reflect_last_def)
  then show ?thesis using reflect_plain_angles[OF assms] by simp
qed

subsection \<open>From Cartesian coordinates to angles and back\<close>

lemma sum_squares_Nil: "sum_squares [] = 0" by (simp add: sum_squares_def)
lemma sum_squares_Cons: "sum_squares (x # v) = x\<^sup>2 + sum_squares v"
  by (simp add: sum_squares_def)

lemma sum_squares_ge0: "0 \<le> sum_squares v"
  by (induction v) (simp_all add: sum_squares_Nil sum_squares_Cons)

lemma sq_norm_from_le: "sq_norm_from k v \<le> sum_squares v"
proof -
  have "sum_squares v = sum_squares (take k v) + sq_norm_from k v"
    unfolding sum_squares_def sq_norm_from_def
    by (metis append_take_drop_id map_append sum_list_append)
  with sum_squares_ge0[of "take k v"] show ?thesis by simp
qed

lemma sq_norm_from_ge0: "0 \<le> sq_norm_from k v"
  unfolding sq_norm_from_def using sum_squares_ge0[of "drop k v"] by (simp add: sum_squares_def)

lemma sum_squares_pos_if: "sq_norm_from k v \<noteq> 0 \<Longrightarrow> 0 < sum_squares v"
  using sq_norm_from_le[of k v] sq_norm_from_ge0[of k v] by simp

text \<open>The cosine and the sine of the angle that the code computes for one coordinate.\<close>

lemma quotient_bounds:
  fixes x T :: real
  assumes "0 \<le> T" "0 < x\<^sup>2 + T"
  shows "- 1 \<le> x / sqrt (x\<^sup>2 + T)" "x / sqrt (x\<^sup>2 + T) \<le> 1"
    "sqrt (1 - (x / sqrt (x\<^sup>2 + T))\<^sup>2) = sqrt T / sqrt (x\<^sup>2 + T)"
proof -
  let ?S = "x\<^sup>2 + T"
  have S: "0 < ?S" by fact
  have q2: "(x / sqrt ?S)\<^sup>2 = x\<^sup>2 / ?S"
    using S by (simp add: power_divide)
  have "x\<^sup>2 / ?S \<le> 1" using S assms(1) by simp
  then have "(x / sqrt ?S)\<^sup>2 \<le> 1" by (simp only: q2)
  then have "\<bar>x / sqrt ?S\<bar> \<le> 1" by (simp only: abs_square_le_1)
  then show "- 1 \<le> x / sqrt ?S" "x / sqrt ?S \<le> 1"
    unfolding abs_le_iff by linarith+
  have "1 - (x / sqrt ?S)\<^sup>2 = T / ?S"
    unfolding q2 using S by (simp add: field_simps)
  then show "sqrt (1 - (x / sqrt ?S)\<^sup>2) = sqrt T / sqrt ?S"
    by (simp add: real_sqrt_divide)
qed

lemma np_quotient:
  "n \<noteq> 0 \<Longrightarrow> - 1 \<le> x / n \<Longrightarrow> x / n \<le> 1 \<Longrightarrow>
   np_arccos (np_divide x n) = Some (arccos (x / n))"
  by (simp add: np_arccos_def np_divide_def)

lemma c2a_Cons:
  "2 \<le> length w \<Longrightarrow>
   c2a (x # w) = np_arccos (np_divide x (sqrt (sum_squares (x # w)))) # c2a w"
  by (cases w rule: c2a.cases) simp_all

lemma length_c2a: "length (c2a v) = length v - 1"
  by (induction v rule: c2a.induct) simp_all

lemma c2a_then_a2c:
  assumes "2 \<le> length v" "sq_norm_from (length v - 2) v \<noteq> 0"
  shows "\<exists>th. c2a v = map Some th \<and> a2c th = map (\<lambda>c. c / sqrt (sum_squares v)) v"
  using assms
proof (induction v rule: c2a.induct)
  case (1 x y z zs)
  let ?w = "y # z # zs"
  let ?T = "sum_squares ?w"
  let ?S = "x\<^sup>2 + ?T"
  have "sq_norm_from (length (x # ?w) - 2) (x # ?w) = sq_norm_from (length ?w - 2) ?w"
    by (simp add: sq_norm_from_def)
  with 1 have nz: "sq_norm_from (length ?w - 2) ?w \<noteq> 0" by simp
  then have T: "0 < ?T" by (rule sum_squares_pos_if)
  then have S: "0 < ?S" by (simp add: add_nonneg_pos)
  from 1 nz obtain th where th: "c2a ?w = map Some th"
    "a2c th = map (\<lambda>c. c / sqrt ?T) ?w" by auto
  let ?q = "x / sqrt ?S"
  note Q = quotient_bounds[OF less_imp_le[OF T] S]
  have nS: "sqrt ?S \<noteq> 0" using S by (metis real_sqrt_eq_0_iff less_irrefl)
  have ang: "np_arccos (np_divide x (sqrt (sum_squares (x # ?w)))) = Some (arccos ?q)"
    unfolding sum_squares_Cons[of x ?w] by (rule np_quotient[OF nS Q(1) Q(2)])
  have c: "cos (arccos ?q) = ?q" using Q(1,2) by simp
  have s: "sin (arccos ?q) = sqrt ?T / sqrt ?S"
    using Q by (simp add: sin_arccos)
  have "c2a (x # ?w) = map Some (arccos ?q # th)"
    using ang th(1) by (simp del: c2a.simps add: c2a_Cons)
  moreover have "a2c (arccos ?q # th) = map (\<lambda>c. c / sqrt (sum_squares (x # ?w))) (x # ?w)"
    unfolding a2c.simps th(2) c s sum_squares_Cons[of x ?w]
    using T by simp
  ultimately show ?case by blast
next
  case (2 x y)
  let ?S = "x\<^sup>2 + y\<^sup>2"
  from 2 have "sum_squares [x, y] \<noteq> 0" by (simp add: sq_norm_from_0)
  then have S: "0 < ?S" using sum_squares_ge0[of "[x, y]"]
    unfolding sum_squares_Cons sum_squares_Nil by linarith
  have ss: "sum_squares [x, y] = ?S" by (simp add: sum_squares_Cons sum_squares_Nil)
  let ?q = "x / sqrt ?S"
  have y2: "0 \<le> y\<^sup>2" by simp
  note Q = quotient_bounds[OF y2 S]
  have nS: "sqrt ?S \<noteq> 0" using S by (metis real_sqrt_eq_0_iff less_irrefl)
  have ang: "np_arccos (np_divide x (sqrt (sum_squares [x, y]))) = Some (arccos ?q)"
    unfolding ss by (rule np_quotient[OF nS Q(1) Q(2)])
  have c: "cos (arccos ?q) = ?q" using Q(1,2) by simp
  have s: "sin (arccos ?q) = \<bar>y\<bar> / sqrt ?S"
    using Q by (simp add: sin_arccos)
  show ?case
  proof (cases "y < 0")
    case True
    have "c2a [x, y] = map Some [2 * pi - arccos ?q]"
      using True ang by simp
    moreover have "a2c [2 * pi - arccos ?q] = map (\<lambda>c. c / sqrt (sum_squares [x, y])) [x, y]"
      using True c s by (simp add: ss)
    ultimately show ?thesis by blast
  next
    case False
    have "c2a [x, y] = map Some [arccos ?q]"
      using False ang by simp
    moreover have "a2c [arccos ?q] = map (\<lambda>c. c / sqrt (sum_squares [x, y])) [x, y]"
      using False c s by (simp add: ss)
    ultimately show ?thesis by blast
  qed
qed simp_all

subsection \<open>From angles to Cartesian coordinates and back\<close>

lemma length_a2c: "length (a2c a) = length a + 1"
  by (induction a) simp_all

lemma sum_squares_scale: "sum_squares (map (\<lambda>u. u * c) v) = c\<^sup>2 * sum_squares v"
  by (induction v) (simp_all add: sum_squares_Nil sum_squares_Cons power_mult_distrib algebra_simps)

lemma sum_squares_a2c: "sum_squares (a2c a) = 1"
proof (induction a)
  case Nil
  then show ?case by (simp add: sum_squares_Cons sum_squares_Nil)
next
  case (Cons t ts)
  have "sum_squares (a2c (t # ts)) = (cos t)\<^sup>2 + (sin t)\<^sup>2 * sum_squares (a2c ts)"
    by (simp add: sum_squares_Cons sum_squares_scale)
  with Cons show ?case by (simp add: add.commute)
qed

lemma np_divide_scale:
  "0 < c \<Longrightarrow> np_divide (x * c) (sqrt (c\<^sup>2 * S)) = np_divide x (sqrt S)"
  by (simp add: np_divide_def real_sqrt_mult)

lemma c2a_scale:
  assumes "0 < c"
  shows "c2a (map (\<lambda>u. u * c) v) = c2a v"
proof (induction v rule: c2a.induct)
  case (1 x y z zs)
  have "sum_squares (x * c # y * c # z * c # map (\<lambda>u. u * c) zs) =
        c\<^sup>2 * sum_squares (x # y # z # zs)"
    using sum_squares_scale[of c "x # y # z # zs"] by simp
  with 1 show ?case
    using assms by (simp add: np_divide_scale)
next
  case (2 x y)
  have "sum_squares [x * c, y * c] = c\<^sup>2 * sum_squares [x, y]"
    using sum_squares_scale[of c "[x, y]"] by simp
  moreover have "y * c < 0 \<longleftrightarrow> y < 0"
    using assms by (simp add: mult_less_0_iff)
  ultimately show ?case
    using assms by (simp add: np_divide_scale)
qed simp_all

lemma arccos_of_cos: "0 < t \<Longrightarrow> t < pi \<Longrightarrow> np_arccos (np_divide (cos t) (sqrt 1)) = Some t"
  by (simp add: np_arccos_def np_divide_def arccos_cos)

lemma a2c_then_c2a: "angle_ranges a \<Longrightarrow> c2a (a2c a) = map Some a"
proof (induction a rule: angle_ranges.induct)
  case 1
  then show ?case by simp
next
  case (2 t)
  have ss: "sum_squares [cos t, sin t] = 1"
    by (simp add: sum_squares_Cons sum_squares_Nil)
  have ang: "np_arccos (np_divide (cos t) (sqrt (sum_squares [cos t, sin t]))) =
             Some (arccos (cos t))"
    unfolding ss by (simp add: np_arccos_def np_divide_def)
  show ?case
  proof (cases "sin t < 0")
    case True
    have "pi < t"
    proof (rule ccontr)
      assume "\<not> pi < t"
      with 2 have "0 \<le> sin t" by (intro sin_ge_zero) simp_all
      with True show False by simp
    qed
    with 2 have "arccos (cos (2 * pi - t)) = 2 * pi - t"
      by (intro arccos_cos) simp_all
    then have "arccos (cos t) = 2 * pi - t" by simp
    with True ang show ?thesis by simp
  next
    case False
    have "t \<le> pi"
    proof (rule ccontr)
      assume "\<not> t \<le> pi"
      with 2 have "sin t < 0" by (intro sin_lt_zero) simp_all
      with False show False by simp
    qed
    with 2 have "arccos (cos t) = t" by (intro arccos_cos) simp_all
    with False ang show ?thesis by simp
  qed
next
  case (3 t t' ts)
  let ?W = "a2c (t' # ts)"
  have lW: "2 \<le> length ?W" by (simp add: length_a2c)
  then have lW': "2 \<le> length (map (\<lambda>v. v * sin t) ?W)" by simp
  from 3 have t: "0 < t" "t < pi" and IH: "c2a ?W = map Some (t' # ts)" by simp_all
  have st: "0 < sin t" using t by (rule sin_gt_zero)
  have whole: "sum_squares (cos t # map (\<lambda>v. v * sin t) ?W) = 1"
    using sum_squares_a2c[of "t # t' # ts"] by simp
  have "c2a (a2c (t # t' # ts)) = c2a (cos t # map (\<lambda>v. v * sin t) ?W)"
    by simp
  also have "\<dots> = np_arccos (np_divide (cos t) (sqrt 1)) # c2a (map (\<lambda>v. v * sin t) ?W)"
    unfolding c2a_Cons[OF lW'] whole ..
  also have "\<dots> = Some t # c2a ?W"
    unfolding arccos_of_cos[OF t] c2a_scale[OF st] ..
  also have "\<dots> = map Some (t # t' # ts)"
    unfolding IH by simp
  finally show ?case .
qed

lemma angle_ranges_iff:
  "angle_ranges a \<longleftrightarrow>
   a \<noteq> [] \<and> (\<forall>i < length a - 1. 0 < a ! i \<and> a ! i < pi) \<and> 0 < last a \<and> last a < 2 * pi"
proof (induction a rule: angle_ranges.induct)
  case (3 t t' ts)
  have "(\<forall>i < length (t # t' # ts) - 1. 0 < (t # t' # ts) ! i \<and> (t # t' # ts) ! i < pi) \<longleftrightarrow>
        0 < t \<and> t < pi \<and> (\<forall>i < length (t' # ts) - 1. 0 < (t' # ts) ! i \<and> (t' # ts) ! i < pi)"
    by (auto simp add: nth_Cons' less_Suc_eq_0_disj)
  with 3 show ?case by auto
qed simp_all

lemma row_norm_sum_squares: "row_norm v = sqrt (sum_squares v)"
  by (simp add: row_norm_def sum_squares_def power2_eq_square)


text \<open>
  Claim C5 as stated fails at the point \<open>(1, 0, 0)\<close> of the unit sphere: its last two
  coordinates are both zero, the second angle is \<open>arccos(0 / 0)\<close>, which is \<open>nan\<close>, and
  no conversion of the angles recovers the point.
\<close>

theorem cartesian_to_angular_pole_nan:
  "row_norm [1, 0, 0] = 1 \<and> cartesian_to_angular [1, 0, 0] = Inr [Some 0, None]"
  by (simp add: row_norm_def cartesian_to_angular_def sq_norm_from_def np_divide_def
      np_arccos_def upt_rec[of 0 2] upt_rec[of 1 2])

text \<open>
  Claim C5, amended: over the real numbers, for every vector \<open>x\<close> of unit norm with two
  coordinates or more whose last two coordinates are not both zero,
  \<open>angular_to_cartesian(cartesian_to_angular(x))\<close> is \<open>x\<close>; and for every non-empty
  vector \<open>a\<close> of angles, the last in \<open>(0, 2\<pi>)\<close> and the others in \<open>(0, \<pi>)\<close>,
  \<open>cartesian_to_angular(angular_to_cartesian(a))\<close> is \<open>a\<close>, also when the last
  Cartesian coordinate is negative.
\<close>

theorem conversion_round_trip:
  "(2 \<le> length x \<and> row_norm x = 1 \<and> sq_norm_from (length x - 2) x \<noteq> 0 \<longrightarrow>
      (\<exists>th. cartesian_to_angular x = Inr (map Some th) \<and> angular_to_cartesian th = x)) \<and>
   (a \<noteq> [] \<and> (\<forall>i < length a - 1. 0 < a ! i \<and> a ! i < pi) \<and> 0 < last a \<and> last a < 2 * pi \<longrightarrow>
      cartesian_to_angular (angular_to_cartesian a) = Inr (map Some a))"
proof (intro conjI impI)
  assume h: "2 \<le> length x \<and> row_norm x = 1 \<and> sq_norm_from (length x - 2) x \<noteq> 0"
  then have n: "sqrt (sum_squares x) = 1" by (simp add: row_norm_sum_squares)
  from h c2a_then_a2c[of x] obtain th where
    "c2a x = map Some th" "a2c th = map (\<lambda>c. c / sqrt (sum_squares x)) x" by blast
  with h n show "\<exists>th. cartesian_to_angular x = Inr (map Some th) \<and> angular_to_cartesian th = x"
    by (intro exI[of _ th]) (simp add: cartesian_to_angular_c2a angular_to_cartesian_a2c)
next
  assume "a \<noteq> [] \<and> (\<forall>i < length a - 1. 0 < a ! i \<and> a ! i < pi) \<and> 0 < last a \<and> last a < 2 * pi"
  then have r: "angle_ranges a" and ne: "a \<noteq> []" by (simp_all add: angle_ranges_iff)
  from ne have "2 \<le> length (a2c a)" by (cases a) (simp_all add: length_a2c)
  then show "cartesian_to_angular (angular_to_cartesian a) = Inr (map Some a)"
    using a2c_then_c2a[OF r] by (simp add: angular_to_cartesian_a2c cartesian_to_angular_c2a)
qed

theorem conversion_round_trip_witness:
  "2 \<le> length [0, 0, - 1 :: real] \<and> row_norm [0, 0, - 1] = 1 \<and>
   sq_norm_from (length [0, 0, - 1 :: real] - 2) [0, 0, - 1] \<noteq> 0 \<and>
   (\<exists>th. cartesian_to_angular [0, 0, - 1] = Inr (map Some th) \<and>
         angular_to_cartesian th = [0, 0, - 1]) \<and>
   [pi / 2, 3 * pi / 2] \<noteq> [] \<and> 0 < pi / 2 \<and> pi / 2 < pi \<and>
   0 < last [pi / 2, 3 * pi / 2] \<and> last [pi / 2, 3 * pi / 2] < 2 * pi \<and>
   cartesian_to_angular (angular_to_cartesian [pi / 2, 3 * pi / 2]) =
     Inr (map Some [pi / 2, 3 * pi / 2])"
proof -
  have x: "2 \<le> length [0, 0, - 1 :: real] \<and> row_norm [0, 0, - 1] = 1 \<and>
           sq_norm_from (length [0, 0, - 1 :: real] - 2) [0, 0, - 1] \<noteq> 0"
    by (simp add: row_norm_def sq_norm_from_def)
  have pi: "0 < pi / 2 \<and> pi / 2 < pi \<and> 0 < last [pi / 2, 3 * pi / 2] \<and>
            last [pi / 2, 3 * pi / 2] < 2 * pi"
    by simp
  then have a: "[pi / 2, 3 * pi / 2] \<noteq> [] \<and>
           (\<forall>i < length [pi / 2, 3 * pi / 2] - 1.
               0 < [pi / 2, 3 * pi / 2] ! i \<and> [pi / 2, 3 * pi / 2] ! i < pi) \<and>
           0 < last [pi / 2, 3 * pi / 2] \<and> last [pi / 2, 3 * pi / 2] < 2 * pi"
    by simp
  from conversion_round_trip[of "[0, 0, - 1]" "[pi / 2, 3 * pi / 2]"] x a
  have "(\<exists>th. cartesian_to_angular [0, 0, - 1] = Inr (map Some th) \<and>
             angular_to_cartesian th = [0, 0, - 1]) \<and>
        cartesian_to_angular (angular_to_cartesian [pi / 2, 3 * pi / 2]) =
          Inr (map Some [pi / 2, 3 * pi / 2])"
    by blast
  with x pi show ?thesis by simp
qed

end
